theory Spec2Isabelle
  imports Complex_Main
begin

section \<open>JSON values\<close>

text \<open>
  The values \<^verbatim>\<open>JSON.parse\<close> produces. An object is an association list read with
  \<^const>\<open>map_of\<close>. The backlog schema has no numeric keyword, so the payload of a
  number is never inspected.
\<close>

datatype json =
    JNull
  | JBool bool
  | JNum int
  | JStr string
  | JArr "json list"
  | JObj "(string \<times> json) list"

text \<open>
  JavaScript strings are modelled as UTF-8 byte strings; the accented letters of the
  source's French messages are spelled out as their two bytes.
\<close>

definition e_acute :: string where
  "e_acute = [CHR 0xC3, CHR 0xA9]"

definition a_grave :: string where
  "a_grave = [CHR 0xC3, CHR 0xA0]"

definition backslash :: char where
  "backslash = CHR 0x5C"

definition newline :: char where
  "newline = CHR 0x0A"

text \<open>\<^verbatim>\<open>Array.prototype.join\<close> on strings.\<close>

fun join :: "string \<Rightarrow> string list \<Rightarrow> string" where
  "join sep [] = []"
| "join sep [x] = x"
| "join sep (x # y # ys) = x @ sep @ join sep (y # ys)"

text \<open>\<^verbatim>\<open>String.prototype.includes\<close>.\<close>

fun starts_with :: "string \<Rightarrow> string \<Rightarrow> bool" where
  "starts_with s [] = True"
| "starts_with [] (c # cs) = False"
| "starts_with (d # ds) (c # cs) = (d = c \<and> starts_with ds cs)"

fun includes_str :: "string \<Rightarrow> string \<Rightarrow> bool" where
  "includes_str [] sub = (sub = [])"
| "includes_str (c # cs) sub = (starts_with (c # cs) sub \<or> includes_str cs sub)"

text \<open>Decimal rendering of an array index, as it appears in an instance path.\<close>

fun show_nat :: "nat \<Rightarrow> string" where
  "show_nat n =
     (if n < 10 then [''0123456789'' ! n]
      else show_nat (n div 10) @ [''0123456789'' ! (n mod 10)])"

declare show_nat.simps [simp del]

section \<open>The schema validator (Ajv 8, option \<^verbatim>\<open>allErrors\<close>)\<close>

text \<open>
  The repository validates with Ajv, a library outside the repository. This section
  models what \<^verbatim>\<open>ajv.compile(schema)\<close> does for the keywords the backlog
  schema uses: \<^verbatim>\<open>type\<close> (object, array, string), \<^verbatim>\<open>required\<close>,
  \<^verbatim>\<open>properties\<close>, \<^verbatim>\<open>minItems\<close>, \<^verbatim>\<open>maxItems\<close>, \<^verbatim>\<open>items\<close>,
  \<^verbatim>\<open>pattern\<close>, \<^verbatim>\<open>enum\<close> and \<^verbatim>\<open>$ref\<close>. A schema object is the list of its
  keywords in the order the source writes them.
\<close>

datatype json_type = TObject | TArray | TString

datatype keyword =
    Type json_type
  | Required "string list"
  | Properties "(string \<times> keyword list) list"
  | MinItems nat
  | MaxItems nat
  | Items "keyword list"
  | Pattern string
  | Enum "json list"
  | Ref string

type_synonym schema = "keyword list"

text \<open>
  An error object. Ajv's errors carry \<^verbatim>\<open>instancePath\<close> and \<^verbatim>\<open>message\<close> (and
  fields the repository never reads); the loop also builds error objects that have a
  \<^verbatim>\<open>message\<close> only, hence the optional path.
\<close>

record error_object =
  instancePath :: "string option"
  message :: string

definition ajv_error :: "string \<Rightarrow> string \<Rightarrow> error_object" where
  "ajv_error p m = \<lparr>instancePath = Some p, message = m\<rparr>"

fun type_name :: "json_type \<Rightarrow> string" where
  "type_name TObject = ''object''"
| "type_name TArray = ''array''"
| "type_name TString = ''string''"

fun has_type :: "json_type \<Rightarrow> json \<Rightarrow> bool" where
  "has_type TObject (JObj fs) = True"
| "has_type TArray (JArr xs) = True"
| "has_type TString (JStr s) = True"
| "has_type t j = False"

subsection \<open>The regular expressions of \<^verbatim>\<open>pattern\<close>\<close>

text \<open>
  The fragment of JavaScript regular expressions the model understands: an optional
  \<^verbatim>\<open>^\<close>, then atoms, then an optional \<^verbatim>\<open>$\<close>; an atom is an ordinary character or
  \<^verbatim>\<open>\d\<close>, optionally followed by a count \<^verbatim>\<open>{n}\<close>. Anything else is not parsed.
\<close>

datatype regex_atom = Lit char | Digit

record regex =
  anchored_start :: bool
  atoms :: "regex_atom list"
  anchored_end :: bool

definition is_digit :: "char \<Rightarrow> bool" where
  "is_digit c = (c \<in> set ''0123456789'')"

definition digit_value :: "char \<Rightarrow> nat" where
  "digit_value c = of_char c - 48"

definition is_special :: "char \<Rightarrow> bool" where
  "is_special c = (c = backslash \<or> c \<in> set ''^$.*+?()[]{}|'')"

fun parse_count :: "nat \<Rightarrow> string \<Rightarrow> (nat \<times> string) option" where
  "parse_count n [] = None"
| "parse_count n (c # cs) =
     (if c = CHR ''}'' then Some (n, cs)
      else if is_digit c then parse_count (10 * n + digit_value c) cs
      else None)"

lemma parse_count_shorter: "parse_count n cs = Some (m, rest) \<Longrightarrow> length rest < length cs"
  by (induction n cs rule: parse_count.induct) (auto split: if_splits)

text \<open>The count after an atom: \<^verbatim>\<open>{n}\<close> with at least one digit, or nothing (once).\<close>

definition parse_quantifier :: "string \<Rightarrow> (nat \<times> string) option" where
  "parse_quantifier cs =
     (case cs of
        c # d # ds \<Rightarrow>
          (if c = CHR ''{'' then (if is_digit d then parse_count 0 (d # ds) else None)
           else Some (1, cs))
      | [c] \<Rightarrow> (if c = CHR ''{'' then None else Some (1, cs))
      | [] \<Rightarrow> Some (1, cs))"

lemma parse_quantifier_shorter:
  "parse_quantifier cs = Some (m, rest) \<Longrightarrow> length rest \<le> length cs"
  by (auto simp: parse_quantifier_def split: list.splits if_splits
           dest!: parse_count_shorter)

function parse_atoms :: "string \<Rightarrow> (regex_atom list \<times> bool) option" where
  "parse_atoms [] = Some ([], False)"
| "parse_atoms (c # cs) =
     (if c = CHR ''$'' \<and> cs = [] then Some ([], True)
      else if c = backslash then
        (case cs of
           d # ds \<Rightarrow>
             (if d = CHR ''d'' then
                (case parse_quantifier ds of
                   None \<Rightarrow> None
                 | Some (n, rest) \<Rightarrow>
                     (case parse_atoms rest of
                        None \<Rightarrow> None
                      | Some (as, e) \<Rightarrow> Some (replicate n Digit @ as, e)))
              else None)
         | [] \<Rightarrow> None)
      else if is_special c then None
      else
        (case parse_quantifier cs of
           None \<Rightarrow> None
         | Some (n, rest) \<Rightarrow>
             (case parse_atoms rest of
                None \<Rightarrow> None
              | Some (as, e) \<Rightarrow> Some (replicate n (Lit c) @ as, e))))"
  by pat_completeness auto
termination
  by (relation "measure length") (auto dest!: parse_quantifier_shorter)

definition parse_regex :: "string \<Rightarrow> regex option" where
  "parse_regex src =
     (case src of
        c # cs \<Rightarrow>
          (if c = CHR ''^'' then
             (case parse_atoms cs of
                None \<Rightarrow> None
              | Some (as, e) \<Rightarrow> Some \<lparr>anchored_start = True, atoms = as, anchored_end = e\<rparr>)
           else
             (case parse_atoms src of
                None \<Rightarrow> None
              | Some (as, e) \<Rightarrow> Some \<lparr>anchored_start = False, atoms = as, anchored_end = e\<rparr>))
      | [] \<Rightarrow> Some \<lparr>anchored_start = False, atoms = [], anchored_end = False\<rparr>)"

fun atom_matches :: "regex_atom \<Rightarrow> char \<Rightarrow> bool" where
  "atom_matches (Lit c) d = (c = d)"
| "atom_matches Digit d = is_digit d"

text \<open>Matching the atoms at the head of the subject; the rest of the subject is returned.\<close>

fun match_here :: "regex_atom list \<Rightarrow> string \<Rightarrow> string option" where
  "match_here [] s = Some s"
| "match_here (a # as) [] = None"
| "match_here (a # as) (c # cs) = (if atom_matches a c then match_here as cs else None)"

definition match_at :: "regex \<Rightarrow> string \<Rightarrow> bool" where
  "match_at r s =
     (case match_here (atoms r) s of
        None \<Rightarrow> False
      | Some rest \<Rightarrow> \<not> anchored_end r \<or> rest = [])"

fun match_anywhere :: "regex \<Rightarrow> string \<Rightarrow> bool" where
  "match_anywhere r [] = match_at r []"
| "match_anywhere r (c # cs) = (match_at r (c # cs) \<or> match_anywhere r cs)"

text \<open>\<^verbatim>\<open>RegExp.prototype.test\<close>.\<close>

definition regex_test :: "regex \<Rightarrow> string \<Rightarrow> bool" where
  "regex_test r s = (if anchored_start r then match_at r s else match_anywhere r s)"

subsection \<open>Errors of a value against a schema\<close>

text \<open>
  With \<^verbatim>\<open>allErrors\<close> every keyword reports on its own, and a keyword for arrays,
  objects or strings says nothing about a value of another type. A property is present
  when its lookup is not \<^verbatim>\<open>undefined\<close>. The first argument gives the validator of each
  \<^verbatim>\<open>$ref\<close>, the third the instance path of the value. A pattern that is not parsed
  reports nothing here; \<open>ajv_compile\<close> below refuses such a schema.
\<close>

type_synonym validator = "string \<Rightarrow> json \<Rightarrow> error_object list"

fun schema_errors :: "(string \<Rightarrow> validator) \<Rightarrow> schema \<Rightarrow> validator"
and keyword_errors :: "(string \<Rightarrow> validator) \<Rightarrow> keyword \<Rightarrow> validator"
where
  "schema_errors env [] p j = []"
| "schema_errors env (kw # s) p j = keyword_errors env kw p j @ schema_errors env s p j"
| "keyword_errors env (Type t) p j =
     (if has_type t j then [] else [ajv_error p (''must be '' @ type_name t)])"
| "keyword_errors env (Required ks) p j =
     (case j of
        JObj fs \<Rightarrow>
          map (\<lambda>k. ajv_error p (''must have required property '' @ [CHR 0x27] @ k @ [CHR 0x27]))
            (filter (\<lambda>k. map_of fs k = None) ks)
      | _ \<Rightarrow> [])"
| "keyword_errors env (Properties ps) p j =
     (case j of
        JObj fs \<Rightarrow>
          concat (map (\<lambda>(k, s).
              (case map_of fs k of
                 None \<Rightarrow> []
               | Some v \<Rightarrow> schema_errors env s (p @ ''/'' @ k) v)) ps)
      | _ \<Rightarrow> [])"
| "keyword_errors env (MinItems n) p j =
     (case j of
        JArr xs \<Rightarrow>
          (if length xs < n
           then [ajv_error p (''must NOT have fewer than '' @ show_nat n @ '' items'')]
           else [])
      | _ \<Rightarrow> [])"
| "keyword_errors env (MaxItems n) p j =
     (case j of
        JArr xs \<Rightarrow>
          (if n < length xs
           then [ajv_error p (''must NOT have more than '' @ show_nat n @ '' items'')]
           else [])
      | _ \<Rightarrow> [])"
| "keyword_errors env (Items s) p j =
     (case j of
        JArr xs \<Rightarrow>
          concat (map (\<lambda>(i, x). schema_errors env s (p @ ''/'' @ show_nat i) x)
                    (enumerate 0 xs))
      | _ \<Rightarrow> [])"
| "keyword_errors env (Pattern src) p j =
     (case j of
        JStr s \<Rightarrow>
          (case parse_regex src of
             None \<Rightarrow> []
           | Some r \<Rightarrow>
               (if regex_test r s then []
                else [ajv_error p (''must match pattern \"'' @ src @ ''\"'')]))
      | _ \<Rightarrow> [])"
| "keyword_errors env (Enum vs) p j =
     (if j \<in> set vs then []
      else [ajv_error p ''must be equal to one of the allowed values''])"
| "keyword_errors env (Ref r) p j = env r p j"

subsection \<open>Compiling a schema\<close>

text \<open>
  A \<^verbatim>\<open>$ref\<close> of the form \<^verbatim>\<open>#/a/b/c\<close> is a JSON pointer into the root schema
  object: \<^verbatim>\<open>properties\<close> followed by a property name selects that property's
  schema, \<^verbatim>\<open>items\<close> the item schema. Pointers with escapes are not resolved.
\<close>

fun split_on :: "char \<Rightarrow> string \<Rightarrow> string list" where
  "split_on c [] = [[]]"
| "split_on c (d # ds) =
     (if d = c then [] # split_on c ds
      else (case split_on c ds of t # ts \<Rightarrow> (d # t) # ts | [] \<Rightarrow> [[d]]))"

fun find_properties :: "schema \<Rightarrow> (string \<times> schema) list option" where
  "find_properties [] = None"
| "find_properties (Properties ps # s) = Some ps"
| "find_properties (kw # s) = find_properties s"

fun find_items :: "schema \<Rightarrow> schema option" where
  "find_items [] = None"
| "find_items (Items t # s) = Some t"
| "find_items (kw # s) = find_items s"

fun walk :: "schema \<Rightarrow> string list \<Rightarrow> schema option" where
  "walk s [] = Some s"
| "walk s [t] = (if t = ''items'' then find_items s else None)"
| "walk s (t # k # ts) =
     (if t = ''items'' then
        (case find_items s of None \<Rightarrow> None | Some s' \<Rightarrow> walk s' (k # ts))
      else if t = ''properties'' then
        (case find_properties s of
           None \<Rightarrow> None
         | Some ps \<Rightarrow> (case map_of ps k of None \<Rightarrow> None | Some s' \<Rightarrow> walk s' ts))
      else None)"

definition resolve_ref :: "schema \<Rightarrow> string \<Rightarrow> schema option" where
  "resolve_ref whole r =
     (case split_on CHR ''/'' r of
        h # ts \<Rightarrow>
          (if h = ''#'' \<and> list_all (\<lambda>t. CHR ''~'' \<notin> set t \<and> CHR ''%'' \<notin> set t) ts
           then walk whole ts else None)
      | [] \<Rightarrow> None)"

text \<open>Every keyword of a schema, at any depth.\<close>

fun keywords_of :: "schema \<Rightarrow> keyword list"
and nested_keywords :: "keyword \<Rightarrow> keyword list"
where
  "keywords_of [] = []"
| "keywords_of (kw # s) = kw # nested_keywords kw @ keywords_of s"
| "nested_keywords (Properties ps) = concat (map (\<lambda>(k, s). keywords_of s) ps)"
| "nested_keywords (Items s) = keywords_of s"
| "nested_keywords kw = []"

fun is_ref :: "keyword \<Rightarrow> bool" where
  "is_ref (Ref r) = True"
| "is_ref kw = False"

text \<open>
  The model compiles a schema whose patterns it parses and whose references resolve to
  schemas without further references, which is all the backlog schema needs; the
  validator of a reference is then the validator of its target.
\<close>

fun compiles :: "schema \<Rightarrow> keyword \<Rightarrow> bool" where
  "compiles whole (Ref r) =
     (case resolve_ref whole r of
        None \<Rightarrow> False
      | Some t \<Rightarrow> \<not> list_ex is_ref (keywords_of t))"
| "compiles whole (Pattern src) = (parse_regex src \<noteq> None)"
| "compiles whole kw = True"

definition no_refs :: "string \<Rightarrow> validator" where
  "no_refs r p j = []"

definition ref_validator :: "schema \<Rightarrow> string \<Rightarrow> validator" where
  "ref_validator whole r =
     (case resolve_ref whole r of
        None \<Rightarrow> (\<lambda>p j. [])
      | Some t \<Rightarrow> schema_errors no_refs t)"

text \<open>An exception: a thrown \<^verbatim>\<open>Error\<close> with its message.\<close>

datatype js_error = Error string

fun error_message :: "js_error \<Rightarrow> string" where
  "error_message (Error m) = m"

text \<open>
  \<^verbatim>\<open>ajv.compile(schema)\<close>: throws, or returns the validate function. Calling that
  function on a value gives the list of errors; the value is valid when the list is
  empty (Ajv then returns \<^verbatim>\<open>true\<close> and leaves \<^verbatim>\<open>errors\<close> null).
\<close>

type_synonym validate_fn = "json \<Rightarrow> error_object list"

definition ajv_compile :: "schema \<Rightarrow> js_error + validate_fn" where
  "ajv_compile whole =
     (if list_all (compiles whole) (keywords_of whole)
      then Inr (schema_errors (ref_validator whole) whole [])
      else Inl (Error ''schema is invalid or not supported''))"

section \<open>The backlog generator\<close>

subsection \<open>createBacklogSchema\<close>

definition createBacklogSchema :: schema where
  "createBacklogSchema =
     [Type TObject,
      Required [''epic'', ''mvp'', ''iterations''],
      Properties
       [(''epic'',
          [Type TObject,
           Required [''title'', ''description''],
           Properties
            [(''title'', [Type TString]),
             (''description'', [Type TString])]]),
        (''mvp'',
          [Type TArray,
           MinItems 3,
           MaxItems 5,
           Items
            [Type TObject,
             Required [''id'', ''title'', ''description'', ''acceptance_criteria'',
                       ''tasks'', ''priority''],
             Properties
              [(''id'', [Type TString, Pattern (''^US'' @ [backslash] @ ''d{3}$'')]),
               (''title'', [Type TString]),
               (''description'', [Type TString]),
               (''acceptance_criteria'',
                  [Type TArray, MinItems 2, Items [Type TString]]),
               (''tasks'',
                  [Type TArray, MinItems 2, Items [Type TString]]),
               (''priority'', [Enum [JStr ''HIGH'', JStr ''MEDIUM'', JStr ''LOW'']])]]]),
        (''iterations'',
          [Type TArray,
           MinItems 2,
           MaxItems 3,
           Items
            [Type TObject,
             Required [''name'', ''goal'', ''stories''],
             Properties
              [(''name'', [Type TString]),
               (''goal'', [Type TString]),
               (''stories'',
                  [Type TArray, MinItems 1, Items [Ref ''#/properties/mvp/items'']])]]])]]"

subsection \<open>The chat-completion client\<close>

text \<open>
  The provider's client is outside the repository. A client carries its \<^verbatim>\<open>baseURL\<close>
  (possibly undefined) and \<^verbatim>\<open>chat.completions.create\<close>, which reads and changes the
  state \<open>'w\<close> of the outside world and either throws or returns a completion. Calls
  that never settle are not modelled.
\<close>

record fcall =
  name :: string
  arguments :: string

record chat_message =
  role :: string
  content :: "string option"
  function_call :: "fcall option"

record choice =
  choice_message :: chat_message

record completion =
  choices :: "choice list option"

record function_def =
  fn_name :: string
  description :: string
  parameters :: schema

record request =
  model :: string
  messages :: "chat_message list"
  temperature :: rat
  function_list :: "function_def list"
  forced_function_call :: string
  max_tokens :: nat

record 'w client =
  baseURL :: "string option"
  create :: "request \<Rightarrow> 'w \<Rightarrow> (js_error + completion) \<times> 'w"

subsection \<open>determineModel, createApiMessages\<close>

definition determineModel :: "'w client \<Rightarrow> string" where
  "determineModel c =
     (case baseURL c of
        None \<Rightarrow> ''gpt-4.1''
      | Some url \<Rightarrow>
          (if includes_str url ''openai.com'' then ''gpt-4.1'' else ''llama3-70b-8192''))"

definition e_grave :: string where
  "e_grave = [CHR 0xC3, CHR 0xA8]"

definition createApiMessages :: "string \<Rightarrow> chat_message list" where
  "createApiMessages project =
     [\<lparr>role = ''system'',
       content = Some (''You are an expert agile product owner. Generate a detailed agile ''
         @ ''backlog as a valid JSON object strictly following the given JSON schema and ''
         @ ''structure. Include all required fields and respect all constraints.''),
       function_call = None\<rparr>,
      \<lparr>role = ''user'',
       content = Some (''Project description: '' @ project),
       function_call = None\<rparr>,
      \<lparr>role = ''system'',
       content = Some (''Le backlog doit comporter :'' @ [newline]
         @ ''- Un objet 'epic' (titre, description)'' @ [newline]
         @ ''- Un tableau 'mvp' (3 '' @ a_grave @ '' 5 user stories compl'' @ e_grave
         @ ''tes avec id, title, description, acceptance_criteria, tasks, priority)''
         @ [newline]
         @ ''- Un tableau 'iterations' (2 '' @ a_grave @ '' 3 it'' @ e_acute
         @ ''rations, chaque it'' @ e_acute @ ''ration a un nom, un goal, et des stories ''
         @ ''conformes au sch'' @ e_acute @ ''ma user story).'' @ [newline]
         @ ''Respecte strictement ce format. N'invente pas de champs en plus.'' @ [newline]
         @ ''Produce a valid JSON that I can use directly.''),
       function_call = None\<rparr>]"

subsection \<open>callApiForBacklog\<close>

text \<open>
  The result of the adapter is \<^verbatim>\<open>{valid: true, data, functionCall}\<close> or
  \<^verbatim>\<open>{valid: false, error}\<close>.
\<close>

datatype api_result =
    valid: ApiValid (data: json) (functionCall: fcall)
  | ApiInvalid (error: string)

definition no_choices_message :: string where
  "no_choices_message =
     ''R'' @ e_acute @ ''ponse API invalide: aucun choix retourn'' @ e_acute"

text \<open>
  The body of the \<^verbatim>\<open>try\<close> block. \<^verbatim>\<open>JSON.parse\<close> is the JavaScript built-in, taken
  as a parameter: it returns the parsed value or throws a \<^verbatim>\<open>SyntaxError\<close>.
\<close>

definition callApiForBacklog_try ::
  "(string \<Rightarrow> js_error + json) \<Rightarrow> 'w client \<Rightarrow> string \<Rightarrow> chat_message list \<Rightarrow> schema
     \<Rightarrow> 'w \<Rightarrow> (js_error + api_result) \<times> 'w" where
  "callApiForBacklog_try JSON_parse c mdl msgs backlogSchema w =
     (case create c
             \<lparr>model = mdl,
              messages = msgs,
              temperature = 7 / 10,
              function_list =
                [\<lparr>fn_name = ''deliver_backlog'',
                  description = ''Renvoie un backlog agile structur'' @ e_acute @ '' en JSON'',
                  parameters = backlogSchema\<rparr>],
              forced_function_call = ''deliver_backlog'',
              max_tokens = 8192\<rparr> w of
        (Inl e, w') \<Rightarrow> (Inl e, w')
      | (Inr cmpl, w') \<Rightarrow>
          (case choices cmpl of
             None \<Rightarrow> (Inl (Error no_choices_message), w')
           | Some [] \<Rightarrow> (Inl (Error no_choices_message), w')
           | Some (ch # rest) \<Rightarrow>
               (case function_call (choice_message ch) of
                  None \<Rightarrow>
                    (Inr (ApiInvalid (''Aucun appel de fonction retourn'' @ e_acute
                            @ '' par l'API'')), w')
                | Some fc \<Rightarrow>
                    (case JSON_parse (arguments fc) of
                       Inl parseError \<Rightarrow>
                         (Inr (ApiInvalid (''Erreur de parsing JSON: ''
                                 @ error_message parseError)), w')
                     | Inr parsed \<Rightarrow> (Inr (ApiValid parsed fc), w')))))"

text \<open>The \<^verbatim>\<open>catch\<close> block turns the "no choices" error into a result and rethrows the rest.\<close>

definition callApiForBacklog ::
  "(string \<Rightarrow> js_error + json) \<Rightarrow> 'w client \<Rightarrow> string \<Rightarrow> chat_message list \<Rightarrow> schema
     \<Rightarrow> 'w \<Rightarrow> (js_error + api_result) \<times> 'w" where
  "callApiForBacklog JSON_parse c mdl msgs backlogSchema w =
     (case callApiForBacklog_try JSON_parse c mdl msgs backlogSchema w of
        (Inl e, w') \<Rightarrow>
          (if error_message e = no_choices_message
           then (Inr (ApiInvalid (error_message e)), w')
           else (Inl e, w'))
      | (Inr r, w') \<Rightarrow> (Inr r, w'))"

subsection \<open>validateBacklog\<close>

datatype validation_result =
    VValid
  | VInvalid (errors: "error_object list") (errorMsg: string)

text \<open>An \<^verbatim>\<open>instancePath\<close> inside a template string; an absent one prints as undefined.\<close>

fun path_text :: "string option \<Rightarrow> string" where
  "path_text None = ''undefined''"
| "path_text (Some p) = p"

text \<open>\<^verbatim>\<open>errors.map(e => `${e.instancePath} ${e.message}`).join("; ")\<close>\<close>

definition error_text :: "error_object list \<Rightarrow> string" where
  "error_text errs =
     join ''; '' (map (\<lambda>e. path_text (instancePath e) @ '' '' @ message e) errs)"

definition validateBacklog :: "json \<Rightarrow> validate_fn \<Rightarrow> validation_result" where
  "validateBacklog backlog validator =
     (if validator backlog \<noteq> []
      then VInvalid (validator backlog) (error_text (validator backlog))
      else VValid)"

subsection \<open>processBacklogParams\<close>

text \<open>
  The second argument of \<^verbatim>\<open>generateBacklog\<close> is a description or, in the legacy
  argument order, the client; the third is a client or absent (undefined or null,
  \<open>None\<close>). The project name is a string.
\<close>

datatype 'w js_arg = Undefined | Null | Str string | Obj "'w client"

fun typeof_object :: "'w js_arg \<Rightarrow> bool" where
  "typeof_object Null = True"
| "typeof_object (Obj c) = True"
| "typeof_object a = False"

fun as_client :: "'w js_arg \<Rightarrow> 'w client option" where
  "as_client (Obj c) = Some c"
| "as_client a = None"

fun to_text :: "'w js_arg \<Rightarrow> string" where
  "to_text Undefined = ''undefined''"
| "to_text Null = ''null''"
| "to_text (Str s) = s"
| "to_text (Obj c) = ''[object Object]''"

datatype 'w params_result =
    ParamsInvalid error_object
  | ParamsValid string "'w client"

definition processBacklogParams ::
  "string \<Rightarrow> 'w js_arg \<Rightarrow> 'w client option \<Rightarrow> 'w params_result" where
  "processBacklogParams projectName projectDescription cl =
     (let legacy = (typeof_object projectDescription \<and> cl = None);
          cl' = (if legacy then as_client projectDescription else cl);
          projectDescription' = (if legacy then Str [] else projectDescription)
      in case cl' of
           None \<Rightarrow>
             ParamsInvalid
               \<lparr>instancePath = None, message = ''Client API non d'' @ e_acute @ ''fini''\<rparr>
         | Some c \<Rightarrow> ParamsValid (projectName @ '': '' @ to_text projectDescription') c)"

subsection \<open>attemptBacklogGeneration\<close>

record generation_result =
  success :: bool
  result :: "json option"
  lastValidationErrors :: "error_object list option"

text \<open>
  What the loop is observed to do: for each call of the adapter, in order, the message
  sequence it was given, the last-known failure at that moment and what the adapter
  returned or threw; then how the loop ended, the message array as the loop left it, and
  the state of the outside world.
\<close>

record adapter_call =
  sent :: "chat_message list"
  known_failure :: "error_object list option"
  returned :: "js_error + api_result"

record 'w loop_run =
  outcome :: "js_error + generation_result"
  calls :: "adapter_call list"
  messages_after :: "chat_message list"
  world_after :: 'w

definition logged :: "adapter_call \<Rightarrow> 'w loop_run \<Rightarrow> 'w loop_run" where
  "logged c run = run\<lparr>calls := c # calls run\<rparr>"

definition maxTries :: nat where
  "maxTries = 3"

definition assistant_turn :: "fcall \<Rightarrow> chat_message" where
  "assistant_turn fc = \<lparr>role = ''assistant'', content = None, function_call = Some fc\<rparr>"

definition feedback_turn :: "string \<Rightarrow> chat_message" where
  "feedback_turn msg =
     \<lparr>role = ''system'',
      content = Some (''La r'' @ e_acute @ ''ponse JSON n'est pas valide : '' @ msg
        @ ''. Merci de ne renvoyer que le JSON conforme via deliver_backlog.''),
      function_call = None\<rparr>"

text \<open>The \<^verbatim>\<open>for\<close> loop, from the value \<open>attempt\<close> of its counter on.\<close>

function attempt_loop ::
  "(string \<Rightarrow> js_error + json) \<Rightarrow> 'w client \<Rightarrow> string \<Rightarrow> schema \<Rightarrow> validate_fn
     \<Rightarrow> nat \<Rightarrow> chat_message list \<Rightarrow> error_object list option \<Rightarrow> 'w \<Rightarrow> 'w loop_run" where
  "attempt_loop JSON_parse c mdl backlogSchema validate attempt msgs lastErrs w =
     (if attempt \<le> maxTries then
        (case callApiForBacklog JSON_parse c mdl msgs backlogSchema w of
           (Inl e, w') \<Rightarrow>
             \<lparr>outcome = Inl e,
              calls = [\<lparr>sent = msgs, known_failure = lastErrs, returned = Inl e\<rparr>],
              messages_after = msgs,
              world_after = w'\<rparr>
         | (Inr (ApiInvalid err), w') \<Rightarrow>
             logged \<lparr>sent = msgs, known_failure = lastErrs, returned = Inr (ApiInvalid err)\<rparr>
               (attempt_loop JSON_parse c mdl backlogSchema validate (attempt + 1) msgs
                  (Some [\<lparr>instancePath = None, message = err\<rparr>]) w')
         | (Inr (ApiValid d fc), w') \<Rightarrow>
             (case validateBacklog d validate of
                VValid \<Rightarrow>
                  \<lparr>outcome = Inr \<lparr>success = True, result = Some d,
                                   lastValidationErrors = None\<rparr>,
                   calls = [\<lparr>sent = msgs, known_failure = lastErrs,
                             returned = Inr (ApiValid d fc)\<rparr>],
                   messages_after = msgs,
                   world_after = w'\<rparr>
              | VInvalid errs msg \<Rightarrow>
                  logged \<lparr>sent = msgs, known_failure = lastErrs,
                          returned = Inr (ApiValid d fc)\<rparr>
                    (attempt_loop JSON_parse c mdl backlogSchema validate (attempt + 1)
                       (msgs @ [assistant_turn fc, feedback_turn msg]) (Some errs) w')))
      else
        \<lparr>outcome = Inr \<lparr>success = False, result = None, lastValidationErrors = lastErrs\<rparr>,
         calls = [],
         messages_after = msgs,
         world_after = w\<rparr>)"
  by pat_completeness auto
termination
  by (relation "measure (\<lambda>(JSON_parse, c, mdl, backlogSchema, validate, attempt, rest).
                           maxTries + 1 - attempt)") auto

declare attempt_loop.simps [simp del]

definition attemptBacklogGeneration ::
  "(string \<Rightarrow> js_error + json) \<Rightarrow> 'w client \<Rightarrow> string \<Rightarrow> chat_message list \<Rightarrow> schema
     \<Rightarrow> validate_fn \<Rightarrow> 'w \<Rightarrow> 'w loop_run" where
  "attemptBacklogGeneration JSON_parse c mdl msgs backlogSchema validate w =
     attempt_loop JSON_parse c mdl backlogSchema validate 1 msgs None w"

subsection \<open>generateBacklog\<close>

text \<open>
  The Result Envelope, and how the returned promise settles. Console output is not
  modelled.
\<close>

record envelope =
  success :: bool
  result :: "json option"
  error :: "error_object option"

datatype promise = Resolved envelope | Rejected js_error

record 'w generation =
  settled :: promise
  adapter_calls :: "adapter_call list"
  world_end :: 'w

text \<open>\<^verbatim>\<open>x || y\<close> for a string or undefined \<open>x\<close>: the empty string is falsy too.\<close>

fun or_default :: "string option \<Rightarrow> string \<Rightarrow> string" where
  "or_default None d = d"
| "or_default (Some s) d = (if s = [] then d else s)"

text \<open>\<^verbatim>\<open>lastValidationErrors?.[0]?.message\<close>\<close>

fun first_message :: "error_object list option \<Rightarrow> string option" where
  "first_message None = None"
| "first_message (Some []) = None"
| "first_message (Some (e # es)) = Some (message e)"

definition failure :: "string \<Rightarrow> envelope" where
  "failure m =
     \<lparr>success = False, result = None, error = Some \<lparr>instancePath = None, message = m\<rparr>\<rparr>"

definition validation_failed_message :: string where
  "validation_failed_message =
     ''Validation du backlog '' @ e_acute @ ''chou'' @ e_acute @ ''e''"

text \<open>The body of the \<^verbatim>\<open>try\<close> block of \<^verbatim>\<open>processBacklog\<close>.\<close>

definition processBacklog_try ::
  "(string \<Rightarrow> js_error + json) \<Rightarrow> string \<Rightarrow> 'w js_arg \<Rightarrow> 'w client option \<Rightarrow> 'w
     \<Rightarrow> (js_error + envelope) \<times> adapter_call list \<times> 'w" where
  "processBacklog_try JSON_parse projectName projectDescription cl w =
     (case processBacklogParams projectName projectDescription cl of
        ParamsInvalid e \<Rightarrow> (Inr (failure (message e)), [], w)
      | ParamsValid project c \<Rightarrow>
          (case ajv_compile createBacklogSchema of
             Inl e \<Rightarrow> (Inl e, [], w)
           | Inr validate \<Rightarrow>
               (let run = attemptBacklogGeneration JSON_parse c (determineModel c)
                            (createApiMessages project) createBacklogSchema validate w
                in case outcome run of
                     Inl e \<Rightarrow> (Inl e, calls run, world_after run)
                   | Inr g \<Rightarrow>
                       (if generation_result.success g then
                          (Inr \<lparr>success = True, result = generation_result.result g,
                                 error = None\<rparr>,
                           calls run, world_after run)
                        else
                          (Inr (failure
                                  (or_default (first_message (lastValidationErrors g))
                                     validation_failed_message)),
                           calls run, world_after run)))))"

definition generation_error_message :: string where
  "generation_error_message =
     ''Une erreur est survenue lors de la g'' @ e_acute @ ''n'' @ e_acute
       @ ''ration du backlog''"

text \<open>
  \<^verbatim>\<open>generateBacklog\<close>: the promise resolves with what the \<^verbatim>\<open>try\<close> block resolves
  with, or with what the \<^verbatim>\<open>catch\<close> block makes of the exception. The handler
  attached to \<^verbatim>\<open>processBacklog()\<close> would serve an exception of the \<^verbatim>\<open>catch\<close> block
  itself, which only writes to the console. The parameter \<open>provider\<close> is not used by
  the source. Beside the promise, the result records the calls of the adapter and the
  state of the outside world at the end.
\<close>

definition generateBacklog ::
  "(string \<Rightarrow> js_error + json) \<Rightarrow> string \<Rightarrow> 'w js_arg \<Rightarrow> 'w client option \<Rightarrow> string \<Rightarrow> 'w
     \<Rightarrow> 'w generation" where
  "generateBacklog JSON_parse projectName projectDescription cl provider w =
     (case processBacklog_try JSON_parse projectName projectDescription cl w of
        (Inr env, cs, w') \<Rightarrow>
          \<lparr>settled = Resolved env, adapter_calls = cs, world_end = w'\<rparr>
      | (Inl e, cs, w') \<Rightarrow>
          \<lparr>settled =
             Resolved (failure (or_default (Some (error_message e)) generation_error_message)),
           adapter_calls = cs, world_end = w'\<rparr>)"

section \<open>Notions used in the statements\<close>

text \<open>The validate function that \<^verbatim>\<open>generateBacklog\<close> compiles, and the item schema of \<^verbatim>\<open>mvp\<close>.\<close>

definition backlog_validator :: validate_fn where
  "backlog_validator = schema_errors (ref_validator createBacklogSchema) createBacklogSchema []"


text \<open>
  What follows call \<open>i\<close> of a run when the loop goes on: the next call with the given
  messages and last-known failure, or the end of the loop with that failure.
\<close>

definition continues_with ::
  "'w loop_run \<Rightarrow> nat \<Rightarrow> chat_message list \<Rightarrow> error_object list option \<Rightarrow> bool" where
  "continues_with R i ms le =
     (if Suc i < length (calls R)
      then sent (calls R ! Suc i) = ms \<and> known_failure (calls R ! Suc i) = le
      else outcome R = Inr \<lparr>generation_result.success = False, result = None, lastValidationErrors = le\<rparr>)"

definition call_property :: "validate_fn \<Rightarrow> 'w loop_run \<Rightarrow> nat \<Rightarrow> bool" where
  "call_property v R i =
     (case returned (calls R ! i) of
        Inl e \<Rightarrow> outcome R = Inl e \<and> length (calls R) = Suc i
      | Inr (ApiInvalid err) \<Rightarrow>
          continues_with R i (sent (calls R ! i)) (Some [\<lparr>instancePath = None, message = err\<rparr>])
      | Inr (ApiValid d fc) \<Rightarrow>
          (if v d = [] then
             outcome R = Inr \<lparr>generation_result.success = True, result = Some d, lastValidationErrors = None\<rparr>
             \<and> length (calls R) = Suc i
           else
             continues_with R i
               (sent (calls R ! i) @ [assistant_turn fc, feedback_turn (error_text (v d))])
               (Some (v d))))"

text \<open>
  When every call of an execution failed: a call fails when the adapter returns
  \<^verbatim>\<open>{valid: false}\<close> or data that the validator rejects; the failure it leaves
  behind is what the loop stores in \<^verbatim>\<open>lastValidationErrors\<close>.
\<close>

definition failed_attempt :: "validate_fn \<Rightarrow> js_error + api_result \<Rightarrow> bool" where
  "failed_attempt v r =
     (case r of
        Inl e \<Rightarrow> False
      | Inr (ApiInvalid err) \<Rightarrow> True
      | Inr (ApiValid d fc) \<Rightarrow> v d \<noteq> [])"

definition failure_detail :: "validate_fn \<Rightarrow> js_error + api_result \<Rightarrow> error_object list" where
  "failure_detail v r =
     (case r of
        Inl e \<Rightarrow> []
      | Inr (ApiInvalid err) \<Rightarrow> [\<lparr>instancePath = None, message = err\<rparr>]
      | Inr (ApiValid d fc) \<Rightarrow> v d)"

text \<open>The envelope \<^verbatim>\<open>generateBacklog\<close> makes of how the loop ended.\<close>

definition envelope_of :: "js_error + generation_result \<Rightarrow> envelope" where
  "envelope_of r =
     (case r of
        Inl e \<Rightarrow> failure (or_default (Some (error_message e)) generation_error_message)
      | Inr g \<Rightarrow>
          (if generation_result.success g
           then \<lparr>success = True, result = generation_result.result g, error = None\<rparr>
           else failure (or_default (first_message (lastValidationErrors g))
                           validation_failed_message)))"

text \<open>
  A value extended with extra fields: objects may gain fields, at any depth and inside
  arrays, and the fields they had keep their names and are extended in turn; everything
  else is unchanged.
\<close>

fun extends :: "json \<Rightarrow> json \<Rightarrow> bool" where
  "extends (JObj fs) (JObj gs) =
     list_all (\<lambda>(k, v). case map_of gs k of None \<Rightarrow> False | Some v' \<Rightarrow> extends v v') fs"
| "extends (JArr xs) (JArr ys) = list_all2 extends xs ys"
| "extends a b = (a = b)"


text \<open>
  A schema every property of which is required, in every schema object inside it, and
  whose enumerations list scalars only. The property names a schema object requires:
\<close>

fun required_of :: "schema \<Rightarrow> string list" where
  "required_of [] = []"
| "required_of (Required ks # s) = ks @ required_of s"
| "required_of (kw # s) = required_of s"

fun scalar :: "json \<Rightarrow> bool" where
  "scalar (JObj fs) = False"
| "scalar (JArr xs) = False"
| "scalar j = True"

fun open_schema :: "schema \<Rightarrow> bool"
and open_keyword :: "string list \<Rightarrow> keyword \<Rightarrow> bool"
where
  "open_schema s = list_all (open_keyword (required_of s)) s"
| "open_keyword R (Properties ps) = list_all (\<lambda>(k, t). k \<in> set R \<and> open_schema t) ps"
| "open_keyword R (Items t) = open_schema t"
| "open_keyword R (Enum vs) = list_all scalar vs"
| "open_keyword R kw = True"

definition extension_blind :: "(string \<Rightarrow> validator) \<Rightarrow> bool" where
  "extension_blind env =
     (\<forall>r p p' j j'. env r p j = [] \<longrightarrow> extends j j' \<longrightarrow> env r p' j' = [])"

text \<open>The violation Ajv reports for a backlog object without \<^verbatim>\<open>epic\<close>.\<close>

definition missing_epic :: error_object where
  "missing_epic =
     ajv_error [] (''must have required property '' @ [CHR 0x27] @ ''epic'' @ [CHR 0x27])"

section \<open>Concrete inputs\<close>

text \<open>
  A client that answers from a script, one entry per call, and reports no choices once
  the script is used up; the state of the world is the number of calls so far. A parser
  that knows the texts of a table and rejects every other text.
\<close>

definition scripted_client :: "(js_error + completion) list \<Rightarrow> nat client" where
  "scripted_client script =
     \<lparr>baseURL = None,
      create = (\<lambda>rq n. (if n < length script then script ! n else Inr \<lparr>choices = None\<rparr>, Suc n))\<rparr>"

definition reply :: "string \<Rightarrow> js_error + completion" where
  "reply args =
     Inr \<lparr>choices = Some [\<lparr>choice_message =
            \<lparr>role = ''assistant'', content = None,
             function_call = Some \<lparr>name = ''deliver_backlog'', arguments = args\<rparr>\<rparr>\<rparr>]\<rparr>"

definition table_parse :: "(string \<times> json) list \<Rightarrow> string \<Rightarrow> js_error + json" where
  "table_parse table s =
     (case map_of table s of
        None \<Rightarrow> Inl (Error ''Unexpected token'')
      | Some j \<Rightarrow> Inr j)"

definition sample_story :: "string \<Rightarrow> json" where
  "sample_story i =
     JObj [(''id'', JStr i), (''title'', JStr ''Sign in''),
           (''description'', JStr ''As a user I sign in''),
           (''acceptance_criteria'', JArr [JStr ''form shown'', JStr ''session opened'']),
           (''tasks'', JArr [JStr ''build form'', JStr ''store session'']),
           (''priority'', JStr ''HIGH'')]"

definition sample_epic :: json where
  "sample_epic = JObj [(''title'', JStr ''Accounts''), (''description'', JStr ''User accounts'')]"

definition sample_iteration :: "string \<Rightarrow> json list \<Rightarrow> json" where
  "sample_iteration n ss = JObj [(''name'', JStr n), (''goal'', JStr ''grow''), (''stories'', JArr ss)]"

definition sample_backlog :: json where
  "sample_backlog =
     JObj [(''epic'', sample_epic),
           (''mvp'', JArr [sample_story ''US001'', sample_story ''US002'', sample_story ''US003'']),
           (''iterations'',
              JArr [sample_iteration ''one'' [sample_story ''US004''],
                    sample_iteration ''two'' [sample_story ''US005'']])]"

definition sample_messages :: "chat_message list" where
  "sample_messages = [\<lparr>role = ''user'', content = Some ''Project description: Shop'', function_call = None\<rparr>]"

definition retry_run :: "nat loop_run" where
  "retry_run =
     attemptBacklogGeneration (table_parse [(''{}'', JObj []), (''ok'', sample_backlog)])
       (scripted_client [reply ''{}'', reply ''ok'']) ''gpt-4.1'' sample_messages
       createBacklogSchema backlog_validator 0"

text \<open>
  A backlog with two violations below the root: \<^verbatim>\<open>mvp\<close> has one story only, and the
  story of the first iteration has a priority outside the enumeration. A run whose first
  answer is that backlog and whose second is the sample backlog.
\<close>

definition flawed_story :: json where
  "flawed_story =
     JObj [(''id'', JStr ''US004''), (''title'', JStr ''Sign in''),
           (''description'', JStr ''As a user I sign in''),
           (''acceptance_criteria'', JArr [JStr ''form shown'', JStr ''session opened'']),
           (''tasks'', JArr [JStr ''build form'', JStr ''store session'']),
           (''priority'', JStr ''URGENT'')]"

definition flawed_backlog :: json where
  "flawed_backlog =
     JObj [(''epic'', sample_epic),
           (''mvp'', JArr [sample_story ''US001'']),
           (''iterations'',
              JArr [sample_iteration ''one'' [flawed_story],
                    sample_iteration ''two'' [sample_story ''US005'']])]"

definition repaired_run :: "nat loop_run" where
  "repaired_run =
     attemptBacklogGeneration (table_parse [(''flawed'', flawed_backlog), (''ok'', sample_backlog)])
       (scripted_client [reply ''flawed'', reply ''ok'']) ''gpt-4.1'' sample_messages
       createBacklogSchema backlog_validator 0"

definition failing_run :: "nat loop_run" where
  "failing_run =
     attemptBacklogGeneration (table_parse [(''{}'', JObj [])])
       (scripted_client [Inr \<lparr>choices = Some []\<rparr>, reply ''{}'', reply ''{'']) ''gpt-4.1''
       sample_messages createBacklogSchema backlog_validator 0"

definition refused_run :: "nat generation" where
  "refused_run =
     generateBacklog (table_parse []) ''Shop'' (Str ''An online shop'')
       (Some (scripted_client [Inl (Error ''socket hang up'')])) ''openai'' 0"

definition silent_refusal_run :: "nat generation" where
  "silent_refusal_run =
     generateBacklog (table_parse []) ''Shop'' (Str ''An online shop'')
       (Some (scripted_client [Inl (Error [])])) ''openai'' 0"

text \<open>
  The sample backlog with fields the schema does not name, at the root, in the epic, in
  every story and in every iteration; and the sample backlog in the \<^verbatim>\<open>epics\<close> shape.
\<close>

definition decorated_story :: "string \<Rightarrow> json" where
  "decorated_story i =
     JObj [(''id'', JStr i), (''title'', JStr ''Sign in''),
           (''description'', JStr ''As a user I sign in''),
           (''acceptance_criteria'', JArr [JStr ''form shown'', JStr ''session opened'']),
           (''tasks'', JArr [JStr ''build form'', JStr ''store session'']),
           (''priority'', JStr ''HIGH''),
           (''dependencies'', JArr [JStr ''US000''])]"

definition decorated_backlog :: json where
  "decorated_backlog =
     JObj [(''epic'', JObj [(''title'', JStr ''Accounts''), (''description'', JStr ''User accounts''),
                            (''owner'', JStr ''team'')]),
           (''mvp'', JArr [decorated_story ''US001'', decorated_story ''US002'',
                           decorated_story ''US003'']),
           (''iterations'',
              JArr [JObj [(''name'', JStr ''one''), (''goal'', JStr ''grow''),
                          (''stories'', JArr [decorated_story ''US004'']),
                          (''velocity'', JNum 8)],
                    JObj [(''name'', JStr ''two''), (''goal'', JStr ''grow''),
                          (''stories'', JArr [decorated_story ''US005'']),
                          (''velocity'', JNum 5)]]),
           (''generated_by'', JStr ''model'')]"

definition plural_backlog :: json where
  "plural_backlog =
     JObj [(''epics'', JArr [sample_epic]),
           (''mvp'', JArr [sample_story ''US001'', sample_story ''US002'', sample_story ''US003'']),
           (''iterations'',
              JArr [sample_iteration ''one'' [sample_story ''US004''],
                    sample_iteration ''two'' [sample_story ''US005'']])]"

section \<open>The compiled backlog schema\<close>

lemma story_pattern_parsed:
  "parse_regex (''^US'' @ [backslash] @ ''d{3}$'') =
     Some \<lparr>anchored_start = True,
           atoms = [Lit CHR ''U'', Lit CHR ''S'', Digit, Digit, Digit],
           anchored_end = True\<rparr>"
  by code_simp


lemma backlog_schema_compiles:
  "list_all (compiles createBacklogSchema) (keywords_of createBacklogSchema)"
  by code_simp

lemma backlog_schema_compiled: "ajv_compile createBacklogSchema = Inr backlog_validator"
  by (simp add: ajv_compile_def backlog_validator_def backlog_schema_compiles)

lemma sample_backlog_valid: "backlog_validator sample_backlog = []"
  by code_simp

lemma empty_object_invalid:
  "backlog_validator (JObj []) =
     [ajv_error [] (''must have required property '' @ [CHR 0x27] @ ''epic'' @ [CHR 0x27]),
      ajv_error [] (''must have required property '' @ [CHR 0x27] @ ''mvp'' @ [CHR 0x27]),
      ajv_error [] (''must have required property '' @ [CHR 0x27] @ ''iterations'' @ [CHR 0x27])]"
  by code_simp

lemma flawed_backlog_errors:
  "backlog_validator flawed_backlog =
     [\<lparr>instancePath = Some ''/mvp'', message = ''must NOT have fewer than 3 items''\<rparr>,
      \<lparr>instancePath = Some ''/iterations/0/stories/0/priority'',
        message = ''must be equal to one of the allowed values''\<rparr>]"
  by code_simp



lemma root_required:
  "schema_errors env createBacklogSchema p (JObj fs) =
     keyword_errors env (Required [''epic'', ''mvp'', ''iterations'']) p (JObj fs)
       @ schema_errors env (tl (tl createBacklogSchema)) p (JObj fs)"
  by (simp add: createBacklogSchema_def)

subsection \<open>Instance paths and references do not decide acceptance\<close>




subsection \<open>Extra fields\<close>

lemma extends_object:
  assumes "extends (JObj fs) j'"
  shows "\<exists>gs. j' = JObj gs \<and>
       (\<forall>k v. map_of fs k = Some v \<longrightarrow> (\<exists>v'. map_of gs k = Some v' \<and> extends v v'))"
proof (cases j')
  case (JObj gs)
  have "\<exists>v'. map_of gs k = Some v' \<and> extends v v'" if "map_of fs k = Some v" for k v
  proof -
    from that have "(k, v) \<in> set fs" by (rule map_of_SomeD)
    with assms JObj show ?thesis
      by (auto simp: list_all_iff split: option.splits)
  qed
  with JObj show ?thesis by blast
qed (use assms in simp_all)

lemma extends_array:
  "extends (JArr xs) j' \<Longrightarrow> \<exists>ys. j' = JArr ys \<and> list_all2 extends xs ys"
  by (cases j') auto

lemma extends_scalar: "scalar j \<Longrightarrow> extends j j' \<Longrightarrow> j' = j"
  by (cases j) auto

lemma extends_has_type: "has_type t j \<Longrightarrow> extends j j' \<Longrightarrow> has_type t j'"
  by (cases t; cases j; cases j') auto

lemma required_present:
  "schema_errors env s p (JObj fs) = [] \<Longrightarrow> k \<in> set (required_of s) \<Longrightarrow> map_of fs k \<noteq> None"
proof (induction s)
  case Nil
  then show ?case by simp
next
  case (Cons kw s)
  then show ?case by (cases kw) (auto simp: filter_empty_conv)
qed

lemma errors_extension:
  "extension_blind env \<Longrightarrow> list_all (open_keyword R) s \<Longrightarrow>
   (\<And>fs k. j = JObj fs \<Longrightarrow> k \<in> set R \<Longrightarrow> map_of fs k \<noteq> None) \<Longrightarrow>
   schema_errors env s p j = [] \<Longrightarrow> extends j j' \<Longrightarrow> schema_errors env s p' j' = []"
  "extension_blind env \<Longrightarrow> open_keyword R kw \<Longrightarrow>
   (\<And>fs k. j = JObj fs \<Longrightarrow> k \<in> set R \<Longrightarrow> map_of fs k \<noteq> None) \<Longrightarrow>
   keyword_errors env kw p j = [] \<Longrightarrow> extends j j' \<Longrightarrow> keyword_errors env kw p' j' = []"
proof (induction env s p j and env kw p j arbitrary: R p' j' and R p' j'
       rule: schema_errors_keyword_errors.induct)
  case (1 env p j)
  then show ?case by simp
next
  case (2 env kw s p j)
  from "2.prems"(2,4) have a: "open_keyword R kw" "list_all (open_keyword R) s"
    "keyword_errors env kw p j = []" "schema_errors env s p j = []"
    by simp_all
  have "keyword_errors env kw p' j' = []"
    by (rule "2.IH"(1) [OF "2.prems"(1) a(1) "2.prems"(3) a(3) "2.prems"(5)])
  moreover have "schema_errors env s p' j' = []"
    by (rule "2.IH"(2) [OF "2.prems"(1) a(2) "2.prems"(3) a(4) "2.prems"(5)])
  ultimately show ?case by simp
next
  case (3 env t p j)
  then show ?case
    by (auto dest: extends_has_type split: if_splits)
next
  case (4 env ks p j)
  show ?case
  proof (cases j)
    case (JObj fs)
    with "4.prems" obtain gs where gs: "j' = JObj gs"
      and ext: "\<And>k v. map_of fs k = Some v \<Longrightarrow> \<exists>v'. map_of gs k = Some v' \<and> extends v v'"
      using extends_object by blast
    from "4.prems"(4) JObj have "\<forall>k\<in>set ks. map_of fs k \<noteq> None"
      by (auto simp: filter_empty_conv)
    with ext have "\<forall>k\<in>set ks. map_of gs k \<noteq> None"
      by fastforce
    with gs show ?thesis
      by (auto simp: filter_empty_conv)
  next
    case (JArr xs)
    with "4.prems" show ?thesis by (auto dest: extends_array)
  qed (use "4.prems" in auto)
next
  case (5 env ps p j)
  show ?case
  proof (cases j)
    case (JObj fs)
    with "5.prems" obtain gs where gs: "j' = JObj gs"
      and ext: "\<And>k v. map_of fs k = Some v \<Longrightarrow> \<exists>v'. map_of gs k = Some v' \<and> extends v v'"
      using extends_object by blast
    have "schema_errors env t (p' @ ''/'' @ k) v' = []"
      if kt: "(k, t) \<in> set ps" and v': "map_of gs k = Some v'" for k t v'
    proof -
      from kt "5.prems"(2) have kR: "k \<in> set R" and ot: "open_schema t"
        by (auto simp: list_all_iff)
      from "5.prems"(3) [OF JObj kR] obtain v where v: "map_of fs k = Some v"
        by blast
      with ext v' have e: "extends v v'"
        by fastforce
      from "5.prems"(4) JObj kt v have z: "schema_errors env t (p @ ''/'' @ k) v = []"
        by fastforce
      show ?thesis
      proof (rule "5.IH" [OF JObj kt refl v "5.prems"(1) _ _ z e])
        show "list_all (open_keyword (required_of t)) t"
          using ot by simp
        show "map_of hs q \<noteq> None" if "v = JObj hs" "q \<in> set (required_of t)" for hs q
          using required_present [of env t "p @ ''/'' @ k" hs q] z that by simp
      qed
    qed
    with gs show ?thesis
      by (auto split: option.splits)
  next
    case (JArr xs)
    with "5.prems" show ?thesis by (auto dest: extends_array)
  qed (use "5.prems" in auto)
next
  case (6 env n p j)
  show ?case
  proof (cases j)
    case (JObj fs)
    with "6.prems" show ?thesis by (auto dest: extends_object)
  next
    case (JArr xs)
    with "6.prems" show ?thesis
      by (auto dest!: extends_array dest: list_all2_lengthD split: if_splits)
  qed (use "6.prems" in auto)
next
  case (7 env n p j)
  show ?case
  proof (cases j)
    case (JObj fs)
    with "7.prems" show ?thesis by (auto dest: extends_object)
  next
    case (JArr xs)
    with "7.prems" show ?thesis
      by (auto dest!: extends_array dest: list_all2_lengthD split: if_splits)
  qed (use "7.prems" in auto)
next
  case (8 env s p j)
  show ?case
  proof (cases j)
    case (JObj fs)
    with "8.prems" show ?thesis by (auto dest: extends_object)
  next
    case (JArr xs)
    with "8.prems" obtain ys where ys: "j' = JArr ys" and all2: "list_all2 extends xs ys"
      using extends_array by blast
    have "schema_errors env s (p' @ ''/'' @ show_nat i) y = []"
      if iy: "(i, y) \<in> set (enumerate 0 ys)" for i y
    proof -
      from iy have i: "i < length ys" and y: "y = ys ! i"
        by (auto simp: in_set_enumerate_eq)
      with all2 have ix: "(i, xs ! i) \<in> set (enumerate 0 xs)" and e: "extends (xs ! i) y"
        by (auto simp: in_set_enumerate_eq list_all2_conv_all_nth)
      from "8.prems"(4) JArr ix have z: "schema_errors env s (p @ ''/'' @ show_nat i) (xs ! i) = []"
        by fastforce
      show ?thesis
      proof (rule "8.IH" [OF JArr ix refl "8.prems"(1) _ _ z e])
        show "list_all (open_keyword (required_of s)) s"
          using "8.prems"(2) by simp
        show "map_of hs q \<noteq> None" if "xs ! i = JObj hs" "q \<in> set (required_of s)" for hs q
          using required_present [of env s "p @ ''/'' @ show_nat i" hs q] z that by simp
      qed
    qed
    with ys show ?thesis
      by auto
  qed (use "8.prems" in auto)
next
  case (9 env src p j)
  show ?case
  proof (cases j)
    case (JObj fs)
    with "9.prems" show ?thesis by (auto dest: extends_object)
  next
    case (JArr xs)
    with "9.prems" show ?thesis by (auto dest: extends_array)
  qed (use "9.prems" in \<open>auto split: option.splits if_splits\<close>)
next
  case (10 env vs p j)
  from "10.prems" have "j \<in> set vs"
    by (auto split: if_splits)
  with "10.prems" have "scalar j"
    by (auto simp: list_all_iff)
  with "10.prems" have "j' = j"
    by (auto dest: extends_scalar)
  with "10.prems" show ?case
    by (auto split: if_splits)
next
  case (11 env r p j)
  then show ?case
    by (auto simp: extension_blind_def)
qed

lemma schema_extension:
  assumes "open_schema s" and "extension_blind env"
    and "schema_errors env s p j = []" and "extends j j'"
  shows "schema_errors env s p' j' = []"
proof (rule errors_extension(1) [OF assms(2) _ _ assms(3,4)])
  show "list_all (open_keyword (required_of s)) s"
    using assms(1) by simp
  show "map_of fs k \<noteq> None" if "j = JObj fs" "k \<in> set (required_of s)" for fs k
    using required_present [of env s p fs k] assms(3) that by simp
qed

lemma open_find_items:
  "list_all (open_keyword R) s \<Longrightarrow> find_items s = Some t \<Longrightarrow> open_schema t"
  by (induction s rule: find_items.induct) auto

lemma open_find_properties:
  "list_all (open_keyword R) s \<Longrightarrow> find_properties s = Some ps \<Longrightarrow> map_of ps k = Some t \<Longrightarrow>
     open_schema t"
  by (induction s rule: find_properties.induct)
     (auto simp: list_all_iff dest!: map_of_SomeD)

lemma open_walk: "open_schema s \<Longrightarrow> walk s ts = Some t \<Longrightarrow> open_schema t"
proof (induction s ts rule: walk.induct)
  case (1 s)
  then show ?case by simp
next
  case (2 s t')
  then show ?case
    using open_find_items [of "required_of s" s t] by (simp split: if_splits)
next
  case (3 s t' k ts)
  show ?case
  proof (cases "t' = ''items''")
    case True
    with "3.prems" obtain s' where s': "find_items s = Some s'" and w: "walk s' (k # ts) = Some t"
      by (auto split: option.splits)
    from "3.prems"(1) s' have "open_schema s'"
      using open_find_items [of "required_of s" s s'] by simp
    with "3.IH"(1) [OF True s'] w show ?thesis by simp
  next
    case False
    with "3.prems" have p: "t' = ''properties''"
      by (auto split: if_splits)
    with False "3.prems" obtain ps s' where ps: "find_properties s = Some ps"
      and s': "map_of ps k = Some s'" and w: "walk s' ts = Some t"
      by (auto split: option.splits)
    from "3.prems"(1) ps s' have "open_schema s'"
      using open_find_properties [of "required_of s" s ps k s'] by simp
    with "3.IH"(2) [OF False p ps s'] w show ?thesis by simp
  qed
qed

lemma no_refs_extension_blind: "extension_blind no_refs"
  by (simp add: extension_blind_def no_refs_def)

lemma ref_validator_extension_blind:
  assumes "open_schema whole"
  shows "extension_blind (ref_validator whole)"
  unfolding extension_blind_def
proof (intro allI impI)
  fix r p p' j j'
  assume z: "ref_validator whole r p j = []" and e: "extends j j'"
  show "ref_validator whole r p' j' = []"
  proof (cases "resolve_ref whole r")
    case None
    then show ?thesis by (simp add: ref_validator_def)
  next
    case (Some t)
    then have o: "open_schema t"
      using assms open_walk [of whole _ t]
      by (auto simp: resolve_ref_def split: list.splits if_splits)
    from z Some have "schema_errors no_refs t p j = []"
      by (simp add: ref_validator_def)
    with o no_refs_extension_blind have "schema_errors no_refs t p' j' = []"
      using e by (rule schema_extension)
    with Some show ?thesis by (simp add: ref_validator_def)
  qed
qed

lemma backlog_schema_open: "open_schema createBacklogSchema"
  by code_simp

section \<open>The generation-validation loop, call by call\<close>

lemma attempt_loop_exhausted:
  "\<not> a \<le> maxTries \<Longrightarrow>
     attempt_loop P c m S v a ms le w =
       \<lparr>outcome = Inr \<lparr>generation_result.success = False, result = None, lastValidationErrors = le\<rparr>,
        calls = [], messages_after = ms, world_after = w\<rparr>"
  by (subst attempt_loop.simps) simp

lemma attempt_loop_thrown:
  "a \<le> maxTries \<Longrightarrow> callApiForBacklog P c m ms S w = (Inl e, w') \<Longrightarrow>
     attempt_loop P c m S v a ms le w =
       \<lparr>outcome = Inl e,
        calls = [\<lparr>sent = ms, known_failure = le, returned = Inl e\<rparr>],
        messages_after = ms, world_after = w'\<rparr>"
  by (subst attempt_loop.simps) simp

lemma attempt_loop_invalid:
  "a \<le> maxTries \<Longrightarrow> callApiForBacklog P c m ms S w = (Inr (ApiInvalid err), w') \<Longrightarrow>
     attempt_loop P c m S v a ms le w =
       logged \<lparr>sent = ms, known_failure = le, returned = Inr (ApiInvalid err)\<rparr>
         (attempt_loop P c m S v (a + 1) ms (Some [\<lparr>instancePath = None, message = err\<rparr>]) w')"
  by (subst attempt_loop.simps) simp

lemma attempt_loop_validated:
  "a \<le> maxTries \<Longrightarrow> callApiForBacklog P c m ms S w = (Inr (ApiValid d fc), w') \<Longrightarrow> v d = [] \<Longrightarrow>
     attempt_loop P c m S v a ms le w =
       \<lparr>outcome = Inr \<lparr>generation_result.success = True, result = Some d, lastValidationErrors = None\<rparr>,
        calls = [\<lparr>sent = ms, known_failure = le, returned = Inr (ApiValid d fc)\<rparr>],
        messages_after = ms, world_after = w'\<rparr>"
  by (subst attempt_loop.simps) (simp add: validateBacklog_def)

lemma attempt_loop_retry:
  "a \<le> maxTries \<Longrightarrow> callApiForBacklog P c m ms S w = (Inr (ApiValid d fc), w') \<Longrightarrow> v d \<noteq> [] \<Longrightarrow>
     attempt_loop P c m S v a ms le w =
       logged \<lparr>sent = ms, known_failure = le, returned = Inr (ApiValid d fc)\<rparr>
         (attempt_loop P c m S v (a + 1) (ms @ [assistant_turn fc, feedback_turn (error_text (v d))])
            (Some (v d)) w')"
  by (subst attempt_loop.simps) (simp add: validateBacklog_def error_text_def)

lemma attempt_loop_cases:
  obtains
    (exhausted) "\<not> a \<le> maxTries"
  | (thrown) e w' where "a \<le> maxTries" "callApiForBacklog P c m ms S w = (Inl e, w')"
  | (invalid) err w' where "a \<le> maxTries" "callApiForBacklog P c m ms S w = (Inr (ApiInvalid err), w')"
  | (validated) d fc w' where "a \<le> maxTries" "callApiForBacklog P c m ms S w = (Inr (ApiValid d fc), w')" "v d = []"
  | (retry) d fc w' where "a \<le> maxTries" "callApiForBacklog P c m ms S w = (Inr (ApiValid d fc), w')" "v d \<noteq> []"
proof (cases "a \<le> maxTries")
  case False
  then show ?thesis by (rule exhausted)
next
  case True
  obtain r w' where r: "callApiForBacklog P c m ms S w = (r, w')"
    by (cases "callApiForBacklog P c m ms S w")
  show ?thesis
  proof (cases r)
    case (Inl e)
    with True r show ?thesis by (auto intro: thrown)
  next
    case (Inr x)
    show ?thesis
    proof (cases x)
      case (ApiInvalid err)
      with True r Inr show ?thesis by (auto intro: invalid)
    next
      case (ApiValid d fc)
      with True r Inr show ?thesis by (cases "v d = []") (auto intro: validated retry)
    qed
  qed
qed

lemma attempt_loop_calls_bound:
  "length (calls (attempt_loop P c m S v a ms le w)) \<le> maxTries + 1 - a"
proof (induction "maxTries + 1 - a" arbitrary: a ms le w)
  case 0
  then have "\<not> a \<le> maxTries" by simp
  then show ?case by (simp add: attempt_loop_exhausted)
next
  case (Suc n)
  then have n: "n = maxTries + 1 - (a + 1)" by simp
  show ?case
  proof (cases rule: attempt_loop_cases [where a = a and P = P and c = c and m = m and ms = ms and S = S and w = w and v = v])
    case exhausted
    then show ?thesis by (simp add: attempt_loop_exhausted)
  next
    case (thrown e w')
    then show ?thesis by (simp add: attempt_loop_thrown)
  next
    case (invalid err w')
    then show ?thesis
      using Suc.hyps(1) [OF n, of ms "Some [\<lparr>instancePath = None, message = err\<rparr>]" w']
      by (simp add: attempt_loop_invalid logged_def)
  next
    case (validated d fc w')
    then show ?thesis by (simp add: attempt_loop_validated)
  next
    case (retry d fc w')
    then show ?thesis
      using Suc.hyps(1) [OF n, of "ms @ [assistant_turn fc, feedback_turn (error_text (v d))]" "Some (v d)" w']
      by (simp add: attempt_loop_retry logged_def)
  qed
qed

lemma attempt_loop_no_call:
  "calls (attempt_loop P c m S v a ms le w) = [] \<Longrightarrow>
     outcome (attempt_loop P c m S v a ms le w) =
       Inr \<lparr>generation_result.success = False, result = None, lastValidationErrors = le\<rparr>"
  by (cases rule: attempt_loop_cases [where a = a and P = P and c = c and m = m and ms = ms and S = S and w = w and v = v])
     (simp_all add: attempt_loop_exhausted attempt_loop_thrown attempt_loop_invalid
        attempt_loop_validated attempt_loop_retry logged_def)

lemma attempt_loop_first_call:
  "calls (attempt_loop P c m S v a ms le w) = x # xs \<Longrightarrow> sent x = ms \<and> known_failure x = le"
  by (cases rule: attempt_loop_cases [where a = a and P = P and c = c and m = m and ms = ms and S = S and w = w and v = v])
     (auto simp add: attempt_loop_exhausted attempt_loop_thrown attempt_loop_invalid
        attempt_loop_validated attempt_loop_retry logged_def)

lemma continues_with_logged:
  "continues_with (logged x R) (Suc i) ms le = continues_with R i ms le"
  by (simp add: continues_with_def logged_def)

lemma continues_with_logged_0:
  "continues_with (logged x (attempt_loop P c m S v a ms le w)) 0 ms le"
  using attempt_loop_no_call [of P c m S v a ms le w] attempt_loop_first_call [of P c m S v a ms le w]
  by (cases "calls (attempt_loop P c m S v a ms le w)") (auto simp: continues_with_def logged_def)

lemma logged_simps:
  "calls (logged x R) = x # calls R"
  "outcome (logged x R) = outcome R"
  "messages_after (logged x R) = messages_after R"
  "world_after (logged x R) = world_after R"
  by (simp_all add: logged_def)

lemma call_property_logged:
  "call_property v (logged x R) (Suc i) = call_property v R i"
  by (simp add: call_property_def continues_with_logged logged_simps
           split: sum.splits api_result.splits)

lemma attempt_loop_call:
  "i < length (calls (attempt_loop P c m S v a ms le w)) \<Longrightarrow>
     call_property v (attempt_loop P c m S v a ms le w) i"
proof (induction "maxTries + 1 - a" arbitrary: a ms le w i)
  case 0
  then have "\<not> a \<le> maxTries" by simp
  with 0 show ?case by (simp add: attempt_loop_exhausted)
next
  case (Suc n)
  then have n: "n = maxTries + 1 - (a + 1)" by simp
  show ?case
  proof (cases rule: attempt_loop_cases [where a = a and P = P and c = c and m = m and ms = ms and S = S and w = w and v = v])
    case exhausted
    with Suc.prems show ?thesis by (simp add: attempt_loop_exhausted)
  next
    case (thrown e w')
    with Suc.prems show ?thesis by (simp add: attempt_loop_thrown call_property_def)
  next
    case (validated d fc w')
    with Suc.prems show ?thesis by (simp add: attempt_loop_validated call_property_def)
  next
    case (invalid err w')
    let ?x = "\<lparr>sent = ms, known_failure = le, returned = Inr (ApiInvalid err)\<rparr>"
    let ?R = "attempt_loop P c m S v (a + 1) ms (Some [\<lparr>instancePath = None, message = err\<rparr>]) w'"
    have R: "attempt_loop P c m S v a ms le w = logged ?x ?R"
      using invalid by (simp add: attempt_loop_invalid)
    show ?thesis
    proof (cases i)
      case 0
      have "continues_with (logged ?x ?R) 0 ms (Some [\<lparr>instancePath = None, message = err\<rparr>])"
        by (rule continues_with_logged_0)
      then show ?thesis
        unfolding R 0 by (simp add: call_property_def) (simp add: logged_def)
    next
      case (Suc j)
      with Suc.prems have "j < length (calls ?R)"
        unfolding R by (simp add: logged_def)
      then have "call_property v ?R j"
        by (rule Suc.hyps(1) [OF n])
      then show ?thesis
        unfolding R Suc by (simp add: call_property_logged)
    qed
  next
    case (retry d fc w')
    let ?x = "\<lparr>sent = ms, known_failure = le, returned = Inr (ApiValid d fc)\<rparr>"
    let ?ms = "ms @ [assistant_turn fc, feedback_turn (error_text (v d))]"
    let ?R = "attempt_loop P c m S v (a + 1) ?ms (Some (v d)) w'"
    have R: "attempt_loop P c m S v a ms le w = logged ?x ?R"
      using retry by (simp add: attempt_loop_retry)
    show ?thesis
    proof (cases i)
      case 0
      have "continues_with (logged ?x ?R) 0 ?ms (Some (v d))"
        by (rule continues_with_logged_0)
      then show ?thesis
        unfolding R 0 using retry(3) by (simp add: call_property_def) (simp add: logged_def)
    next
      case (Suc j)
      with Suc.prems have "j < length (calls ?R)"
        unfolding R by (simp add: logged_def)
      then have "call_property v ?R j"
        by (rule Suc.hyps(1) [OF n])
      then show ?thesis
        unfolding R Suc by (simp add: call_property_logged)
    qed
  qed
qed

lemma attempt_loop_all_failed:
  "list_all (failed_attempt v) (map returned (calls (attempt_loop P c m S v a ms le w))) \<Longrightarrow>
     length (calls (attempt_loop P c m S v a ms le w)) = maxTries + 1 - a \<and>
     outcome (attempt_loop P c m S v a ms le w) =
       Inr \<lparr>generation_result.success = False, result = None,
            lastValidationErrors =
              (if calls (attempt_loop P c m S v a ms le w) = [] then le
               else Some (failure_detail v
                      (returned (last (calls (attempt_loop P c m S v a ms le w))))))\<rparr>"
proof (induction "maxTries + 1 - a" arbitrary: a ms le w)
  case 0
  then have "\<not> a \<le> maxTries" by simp
  then show ?case by (simp add: attempt_loop_exhausted)
next
  case (Suc n)
  then have n: "n = maxTries + 1 - (a + 1)" by simp
  show ?case
  proof (cases rule: attempt_loop_cases [where a = a and P = P and c = c and m = m and ms = ms and S = S and w = w and v = v])
    case exhausted
    then show ?thesis by (simp add: attempt_loop_exhausted)
  next
    case (thrown e w')
    with Suc.prems show ?thesis by (simp add: attempt_loop_thrown failed_attempt_def)
  next
    case (validated d fc w')
    with Suc.prems show ?thesis by (simp add: attempt_loop_validated failed_attempt_def)
  next
    case (invalid err w')
    let ?R = "attempt_loop P c m S v (a + 1) ms (Some [\<lparr>instancePath = None, message = err\<rparr>]) w'"
    from invalid Suc.prems have "list_all (failed_attempt v) (map returned (calls ?R))"
      by (simp add: attempt_loop_invalid logged_simps)
    from Suc.hyps(1) [OF n this] invalid Suc.hyps(2) show ?thesis
      by (simp add: attempt_loop_invalid logged_simps failure_detail_def)
  next
    case (retry d fc w')
    let ?R = "attempt_loop P c m S v (a + 1) (ms @ [assistant_turn fc, feedback_turn (error_text (v d))]) (Some (v d)) w'"
    from retry Suc.prems have "list_all (failed_attempt v) (map returned (calls ?R))"
      by (simp add: attempt_loop_retry logged_simps)
    from Suc.hyps(1) [OF n this] retry Suc.hyps(2) show ?thesis
      by (simp add: attempt_loop_retry logged_simps failure_detail_def)
  qed
qed

lemma attempt_loop_thrown_call:
  "i < length (calls (attempt_loop P c m S v a ms le w)) \<Longrightarrow>
   returned (calls (attempt_loop P c m S v a ms le w) ! i) = Inl e \<Longrightarrow>
     outcome (attempt_loop P c m S v a ms le w) = Inl e"
  using attempt_loop_call [of i P c m S v a ms le w]
  by (simp add: call_property_def)

lemma attempt_loop_success_has_result:
  "outcome (attempt_loop P c m S v a ms le w) = Inr g \<Longrightarrow> generation_result.success g \<Longrightarrow>
     generation_result.result g \<noteq> None"
proof (induction "maxTries + 1 - a" arbitrary: a ms le w)
  case 0
  then have "\<not> a \<le> maxTries" by simp
  with 0 show ?case by (auto simp add: attempt_loop_exhausted)
next
  case (Suc n)
  then have n: "n = maxTries + 1 - (a + 1)" by simp
  show ?case
  proof (cases rule: attempt_loop_cases [where a = a and P = P and c = c and m = m and ms = ms and S = S and w = w and v = v])
    case exhausted
    with Suc.prems show ?thesis by (auto simp add: attempt_loop_exhausted)
  next
    case (thrown e w')
    with Suc.prems show ?thesis by (simp add: attempt_loop_thrown)
  next
    case (validated d fc w')
    with Suc.prems show ?thesis by (auto simp add: attempt_loop_validated)
  next
    case (invalid err w')
    with Suc.prems Suc.hyps(1) [OF n] show ?thesis
      by (simp add: attempt_loop_invalid logged_simps)
  next
    case (retry d fc w')
    with Suc.prems Suc.hyps(1) [OF n] show ?thesis
      by (simp add: attempt_loop_retry logged_simps)
  qed
qed

section \<open>generateBacklog, case by case\<close>

lemma generateBacklog_without_client:
  "processBacklogParams projectName projectDescription cl = ParamsInvalid e \<Longrightarrow>
     generateBacklog JSON_parse projectName projectDescription cl provider w =
       \<lparr>settled = Resolved (failure (message e)), adapter_calls = [], world_end = w\<rparr>"
  by (simp add: generateBacklog_def processBacklog_try_def)

lemma generateBacklog_with_client:
  "processBacklogParams projectName projectDescription cl = ParamsValid project c \<Longrightarrow>
   run = attemptBacklogGeneration JSON_parse c (determineModel c) (createApiMessages project)
           createBacklogSchema backlog_validator w \<Longrightarrow>
     generateBacklog JSON_parse projectName projectDescription cl provider w =
       \<lparr>settled = Resolved (envelope_of (outcome run)),
        adapter_calls = calls run, world_end = world_after run\<rparr>"
  by (simp add: generateBacklog_def processBacklog_try_def backlog_schema_compiled Let_def
        envelope_of_def validation_failed_message_def split: sum.splits)

lemma envelope_of_filled:
  "(\<And>g. r = Inr g \<Longrightarrow> generation_result.success g \<Longrightarrow> generation_result.result g \<noteq> None) \<Longrightarrow>
   (success (envelope_of r) \<and> result (envelope_of r) \<noteq> None \<and> error (envelope_of r) = None)
   \<or> (\<not> success (envelope_of r) \<and> result (envelope_of r) = None \<and> error (envelope_of r) \<noteq> None)"
  by (cases r) (auto simp: envelope_of_def failure_def)

lemma refused_run_value:
  "refused_run =
     \<lparr>settled = Resolved (failure ''socket hang up''),
      adapter_calls =
        [\<lparr>sent = createApiMessages ''Shop: An online shop'', known_failure = None,
          returned = Inl (Error ''socket hang up'')\<rparr>],
      world_end = 1\<rparr>"
  by code_simp

section \<open>Claims about the generation-validation loop\<close>

text \<open>
  C1. In every execution of \<^verbatim>\<open>attemptBacklogGeneration\<close>, a call of the adapter that
  returns valid data which passes schema validation is the last call: the loop ends
  there with \<^verbatim>\<open>{success: true, result: data}\<close>, whatever attempts remain.
\<close>

theorem first_valid_attempt_ends_loop:
  fixes c :: "'w client" and JSON_parse mdl msgs backlogSchema validate w
  defines "run \<equiv> attemptBacklogGeneration JSON_parse c mdl msgs backlogSchema validate w"
  assumes "i < length (calls run)"
    and "returned (calls run ! i) = Inr (ApiValid d fc)"
    and "validate d = []"
  shows "outcome run =
           Inr \<lparr>generation_result.success = True, result = Some d, lastValidationErrors = None\<rparr>
         \<and> length (calls run) = Suc i"
  using assms attempt_loop_call [of i JSON_parse c mdl backlogSchema validate 1 msgs None w]
  by (simp add: attemptBacklogGeneration_def call_property_def)

text \<open>C1 at a run whose first answer is rejected by the schema and whose second is accepted.\<close>

theorem first_valid_attempt_ends_loop_witness:
  "1 < length (calls retry_run)
   \<and> returned (calls retry_run ! 1) =
       Inr (ApiValid sample_backlog \<lparr>name = ''deliver_backlog'', arguments = ''ok''\<rparr>)
   \<and> backlog_validator sample_backlog = []
   \<and> outcome retry_run =
       Inr \<lparr>generation_result.success = True, result = Some sample_backlog,
            lastValidationErrors = None\<rparr>
   \<and> length (calls retry_run) = 2"
proof -
  have h1: "1 < length (calls retry_run)"
    by code_simp
  have h2: "returned (calls retry_run ! 1) =
       Inr (ApiValid sample_backlog \<lparr>name = ''deliver_backlog'', arguments = ''ok''\<rparr>)"
    by code_simp
  note h3 = sample_backlog_valid
  show ?thesis
    using h1 h2 h3 first_valid_attempt_ends_loop [OF h1 [unfolded retry_run_def] h2 [unfolded retry_run_def] h3]
    by (simp add: retry_run_def)
qed

text \<open>
  C2. The adapter is called at most three times in every execution; when every call
  fails (the adapter reports no usable output, or the data fails the schema), it is
  called exactly three times and the loop returns \<^verbatim>\<open>{success: false}\<close> with the
  failure of the last call.
\<close>

theorem adapter_called_at_most_three_times:
  fixes c :: "'w client" and JSON_parse mdl msgs backlogSchema validate w
  defines "run \<equiv> attemptBacklogGeneration JSON_parse c mdl msgs backlogSchema validate w"
  shows "length (calls run) \<le> 3 \<and>
         (list_all (failed_attempt validate) (map returned (calls run)) \<longrightarrow>
            length (calls run) = 3 \<and>
            outcome run =
              Inr \<lparr>generation_result.success = False, result = None,
                   lastValidationErrors =
                     Some (failure_detail validate (returned (last (calls run))))\<rparr>)"
proof -
  have bound: "length (calls run) \<le> 3"
    using attempt_loop_calls_bound [of JSON_parse c mdl backlogSchema validate 1 msgs None w]
    by (simp add: run_def attemptBacklogGeneration_def maxTries_def)
  have "length (calls run) = 3 \<and>
        outcome run =
          Inr \<lparr>generation_result.success = False, result = None,
               lastValidationErrors =
                 Some (failure_detail validate (returned (last (calls run))))\<rparr>"
    if "list_all (failed_attempt validate) (map returned (calls run))"
  proof -
    from that have all:
      "length (calls run) = 3 \<and>
       outcome run =
         Inr \<lparr>generation_result.success = False, result = None,
              lastValidationErrors =
                (if calls run = [] then None
                 else Some (failure_detail validate (returned (last (calls run)))))\<rparr>"
      using attempt_loop_all_failed [of validate JSON_parse c mdl backlogSchema 1 msgs None w]
      by (simp add: run_def attemptBacklogGeneration_def maxTries_def)
    then have "calls run \<noteq> []" by auto
    with all show ?thesis by simp
  qed
  with bound show ?thesis by blast
qed

text \<open>
  C2 at a run whose three calls fail in the three ways: no choices, data the schema
  rejects, arguments that do not parse.
\<close>

theorem adapter_called_at_most_three_times_witness:
  "list_all (failed_attempt backlog_validator) (map returned (calls failing_run))
   \<and> length (calls failing_run) = 3
   \<and> outcome failing_run =
       Inr \<lparr>generation_result.success = False, result = None,
            lastValidationErrors =
              Some [\<lparr>instancePath = None,
                     message = ''Erreur de parsing JSON: Unexpected token''\<rparr>]\<rparr>"
proof -
  have h: "list_all (failed_attempt backlog_validator) (map returned (calls failing_run))"
    by code_simp
  have l: "failure_detail backlog_validator (returned (last (calls failing_run))) =
             [\<lparr>instancePath = None, message = ''Erreur de parsing JSON: Unexpected token''\<rparr>]"
    by code_simp
  show ?thesis
    using h l
      adapter_called_at_most_three_times
        [of "table_parse [(''{}'', JObj [])]"
            "scripted_client [Inr \<lparr>choices = Some []\<rparr>, reply ''{}'', reply ''{'']"
            "''gpt-4.1''" sample_messages createBacklogSchema backlog_validator 0]
    by (simp add: failing_run_def)
qed

text \<open>
  C3. When the data of call \<open>k\<close> parses but fails schema validation and there is a next
  call, the messages of the next call are those of call \<open>k\<close> followed by exactly two
  turns: an assistant turn with the raw function call, and a system turn whose text
  holds the violations, each as its instance path, a space and its message, joined by
  \<^verbatim>\<open>; \<close>. (An error object without an instance path, which Ajv never makes, prints
  as undefined in the template string.)
\<close>

theorem schema_failure_appends_two_turns:
  fixes c :: "'w client" and JSON_parse mdl msgs backlogSchema validate w
  defines "run \<equiv> attemptBacklogGeneration JSON_parse c mdl msgs backlogSchema validate w"
  assumes "Suc k < length (calls run)"
    and "returned (calls run ! k) = Inr (ApiValid d fc)"
    and "validate d \<noteq> []"
  shows "sent (calls run ! Suc k) =
           sent (calls run ! k) @
             [\<lparr>role = ''assistant'', content = None, function_call = Some fc\<rparr>,
              \<lparr>role = ''system'',
               content = Some (''La r'' @ e_acute @ ''ponse JSON n'est pas valide : ''
                 @ join ''; ''
                     (map (\<lambda>e. (case instancePath e of
                                   None \<Rightarrow> ''undefined''
                                 | Some p \<Rightarrow> p) @ '' '' @ message e)
                          (validate d))
                 @ ''. Merci de ne renvoyer que le JSON conforme via deliver_backlog.''),
               function_call = None\<rparr>]"
proof -
  have path: "path_text x = (case x of None \<Rightarrow> ''undefined'' | Some p \<Rightarrow> p)" for x
    by (cases x) simp_all
  have "sent (calls run ! Suc k) =
          sent (calls run ! k) @ [assistant_turn fc, feedback_turn (error_text (validate d))]"
    using assms attempt_loop_call [of k JSON_parse c mdl backlogSchema validate 1 msgs None w]
    by (simp add: attemptBacklogGeneration_def call_property_def continues_with_def)
  then show ?thesis
    by (simp only: assistant_turn_def feedback_turn_def error_text_def path)
qed

text \<open>
  C3 at the first call of a run that returned a backlog with two violations below the
  root: the text of the system turn names \<^verbatim>\<open>/mvp\<close> and
  \<^verbatim>\<open>/iterations/0/stories/0/priority\<close>, each before its message.
\<close>

theorem schema_failure_appends_two_turns_witness:
  "Suc 0 < length (calls repaired_run)
   \<and> returned (calls repaired_run ! 0) =
       Inr (ApiValid flawed_backlog \<lparr>name = ''deliver_backlog'', arguments = ''flawed''\<rparr>)
   \<and> backlog_validator flawed_backlog \<noteq> []
   \<and> sent (calls repaired_run ! 0) = sample_messages
   \<and> sent (calls repaired_run ! Suc 0) =
       sample_messages @
         [\<lparr>role = ''assistant'', content = None,
           function_call = Some \<lparr>name = ''deliver_backlog'', arguments = ''flawed''\<rparr>\<rparr>,
          \<lparr>role = ''system'',
           content = Some (''La r'' @ e_acute @ ''ponse JSON n'est pas valide : ''
             @ ''/mvp must NOT have fewer than 3 items; ''
             @ ''/iterations/0/stories/0/priority must be equal to one of the allowed values''
             @ ''. Merci de ne renvoyer que le JSON conforme via deliver_backlog.''),
           function_call = None\<rparr>]"
proof -
  have h1: "Suc 0 < length (calls repaired_run)"
    by code_simp
  have h2: "returned (calls repaired_run ! 0) =
       Inr (ApiValid flawed_backlog \<lparr>name = ''deliver_backlog'', arguments = ''flawed''\<rparr>)"
    by code_simp
  have h3: "backlog_validator flawed_backlog \<noteq> []"
    by (simp add: flawed_backlog_errors)
  have h4: "sent (calls repaired_run ! 0) = sample_messages"
    by code_simp
  show ?thesis
    using h1 h2 h3 h4
      schema_failure_appends_two_turns
        [OF h1 [unfolded repaired_run_def] h2 [unfolded repaired_run_def] h3]
    by (simp add: repaired_run_def flawed_backlog_errors)
qed

text \<open>
  C4. When call \<open>k\<close> of the adapter returns \<^verbatim>\<open>{valid: false, error}\<close>, the next call
  gets the same messages, and the error is the last-known failure: for the next call
  if there is one, else in the result of the loop.
\<close>

theorem adapter_failure_keeps_messages:
  fixes c :: "'w client" and JSON_parse mdl msgs backlogSchema validate w
  defines "run \<equiv> attemptBacklogGeneration JSON_parse c mdl msgs backlogSchema validate w"
  assumes "k < length (calls run)"
    and "returned (calls run ! k) = Inr (ApiInvalid err)"
  shows "if Suc k < length (calls run)
         then sent (calls run ! Suc k) = sent (calls run ! k) \<and>
              known_failure (calls run ! Suc k) = Some [\<lparr>instancePath = None, message = err\<rparr>]
         else outcome run =
                Inr \<lparr>generation_result.success = False, result = None,
                     lastValidationErrors = Some [\<lparr>instancePath = None, message = err\<rparr>]\<rparr>"
  using assms attempt_loop_call [of k JSON_parse c mdl backlogSchema validate 1 msgs None w]
  by (simp add: attemptBacklogGeneration_def call_property_def continues_with_def)

text \<open>C4 at the first call of the failing run, which had no choices.\<close>

theorem adapter_failure_keeps_messages_witness:
  "0 < length (calls failing_run)
   \<and> returned (calls failing_run ! 0) = Inr (ApiInvalid no_choices_message)
   \<and> Suc 0 < length (calls failing_run)
   \<and> sent (calls failing_run ! Suc 0) = sent (calls failing_run ! 0)
   \<and> known_failure (calls failing_run ! Suc 0) =
       Some [\<lparr>instancePath = None, message = no_choices_message\<rparr>]"
proof -
  have h1: "0 < length (calls failing_run)"
    by code_simp
  have h2: "returned (calls failing_run ! 0) = Inr (ApiInvalid no_choices_message)"
    by code_simp
  have h3: "Suc 0 < length (calls failing_run)"
    by code_simp
  show ?thesis
    using h1 h2 h3
      adapter_failure_keeps_messages [OF h1 [unfolded failing_run_def] h2 [unfolded failing_run_def]]
    by (simp add: failing_run_def)
qed

section \<open>Claims about generateBacklog\<close>

text \<open>
  C6, as the code has it. The promise of \<^verbatim>\<open>generateBacklog\<close> always resolves, and
  when a call of the adapter throws, it resolves with \<^verbatim>\<open>success: false\<close> and the
  message of the exception, or, when that message is empty, the fixed text of the
  \<^verbatim>\<open>catch\<close> block.
\<close>

theorem exceptions_resolve_as_failure:
  fixes cl :: "'w client option" and JSON_parse projectName projectDescription provider w
  defines "g \<equiv> generateBacklog JSON_parse projectName projectDescription cl provider w"
  shows "(\<exists>env. settled g = Resolved env) \<and>
         (\<forall>i e. i < length (adapter_calls g) \<and> returned (adapter_calls g ! i) = Inl e \<longrightarrow>
            settled g =
              Resolved \<lparr>success = False, result = None,
                        error = Some \<lparr>instancePath = None,
                                      message = (if error_message e = []
                                                 then generation_error_message
                                                 else error_message e)\<rparr>\<rparr>)"
proof (cases "processBacklogParams projectName projectDescription cl")
  case (ParamsInvalid e)
  then show ?thesis
    unfolding g_def by (simp add: generateBacklog_without_client)
next
  case (ParamsValid project c)
  let ?run = "attemptBacklogGeneration JSON_parse c (determineModel c) (createApiMessages project)
           createBacklogSchema backlog_validator w"
  have "envelope_of (outcome ?run) =
          \<lparr>success = False, result = None,
            error = Some \<lparr>instancePath = None,
                          message = (if error_message e = [] then generation_error_message
                                     else error_message e)\<rparr>\<rparr>"
    if "i < length (calls ?run)" "returned (calls ?run ! i) = Inl e" for i e
  proof -
    from that have "outcome ?run = Inl e"
      unfolding attemptBacklogGeneration_def by (rule attempt_loop_thrown_call)
    then show ?thesis
      by (simp add: envelope_of_def failure_def)
  qed
  then have "\<forall>i e. i < length (calls ?run) \<and> returned (calls ?run ! i) = Inl e \<longrightarrow>
      envelope_of (outcome ?run) =
          \<lparr>success = False, result = None,
            error = Some \<lparr>instancePath = None,
                          message = (if error_message e = [] then generation_error_message
                                     else error_message e)\<rparr>\<rparr>"
    by blast
  then show ?thesis
    unfolding g_def generateBacklog_with_client [OF ParamsValid refl]
    by (simp split del: if_split)
qed

text \<open>C6 at a client whose first call throws an error with a message.\<close>

theorem exceptions_resolve_as_failure_witness:
  "0 < length (adapter_calls refused_run)
   \<and> returned (adapter_calls refused_run ! 0) = Inl (Error ''socket hang up'')
   \<and> settled refused_run =
       Resolved \<lparr>success = False, result = None,
                 error = Some \<lparr>instancePath = None, message = ''socket hang up''\<rparr>\<rparr>"
proof -
  have h: "0 < length (adapter_calls refused_run)
     \<and> returned (adapter_calls refused_run ! 0) = Inl (Error ''socket hang up'')"
    by (simp add: refused_run_value)
  from exceptions_resolve_as_failure
         [of "table_parse []" "''Shop''" "Str ''An online shop''"
             "Some (scripted_client [Inl (Error ''socket hang up'')])" "''openai''" 0]
  have "\<forall>i e. i < length (adapter_calls refused_run) \<and> returned (adapter_calls refused_run ! i) = Inl e \<longrightarrow>
            settled refused_run =
              Resolved \<lparr>success = False, result = None,
                        error = Some \<lparr>instancePath = None,
                                      message = (if error_message e = []
                                                 then generation_error_message
                                                 else error_message e)\<rparr>\<rparr>"
    unfolding refused_run_def by blast
  with h have "settled refused_run =
              Resolved \<lparr>success = False, result = None,
                        error = Some \<lparr>instancePath = None,
                                      message = (if error_message (Error ''socket hang up'') = []
                                                 then generation_error_message
                                                 else error_message (Error ''socket hang up''))\<rparr>\<rparr>"
    by blast
  with h show ?thesis by simp
qed

text \<open>
  C6 as the specification states it fails when the exception has an empty message: the
  envelope then carries the fixed text, not the exception's message.
\<close>

theorem exception_message_counterexample:
  "returned (adapter_calls silent_refusal_run ! 0) = Inl (Error [])
   \<and> settled silent_refusal_run \<noteq>
       Resolved \<lparr>success = False, result = None,
                 error = Some \<lparr>instancePath = None, message = error_message (Error [])\<rparr>\<rparr>
   \<and> settled silent_refusal_run =
       Resolved \<lparr>success = False, result = None,
                 error = Some \<lparr>instancePath = None,
                               message = ''Une erreur est survenue lors de la g'' @ e_acute
                                 @ ''n'' @ e_acute @ ''ration du backlog''\<rparr>\<rparr>"
  by code_simp

text \<open>
  C7. Called without a client (and with a second argument that is no client either),
  \<^verbatim>\<open>generateBacklog\<close> resolves with \<^verbatim>\<open>success: false\<close> and the message
  "Client API non defini" (with its accent), calls the adapter not once and leaves the
  outside world as it was.
\<close>

theorem no_client_no_adapter_call:
  assumes "as_client projectDescription = None"
  shows "generateBacklog JSON_parse projectName projectDescription None provider w =
           \<lparr>settled =
              Resolved \<lparr>success = False, result = None,
                        error = Some \<lparr>instancePath = None,
                                      message = ''Client API non d'' @ e_acute @ ''fini''\<rparr>\<rparr>,
            adapter_calls = [],
            world_end = w\<rparr>"
proof -
  have "processBacklogParams projectName projectDescription None =
          ParamsInvalid \<lparr>instancePath = None, message = ''Client API non d'' @ e_acute @ ''fini''\<rparr>"
    using assms by (simp add: processBacklogParams_def Let_def)
  then show ?thesis
    by (simp add: generateBacklog_without_client failure_def)
qed

text \<open>C7 at a call with a project name and a description only.\<close>

theorem no_client_no_adapter_call_witness:
  "as_client (Str ''An online shop'' :: nat js_arg) = None
   \<and> generateBacklog (table_parse []) ''Shop'' (Str ''An online shop'') None ''openai'' (0::nat) =
       \<lparr>settled =
          Resolved \<lparr>success = False, result = None,
                    error = Some \<lparr>instancePath = None,
                                  message = ''Client API non d'' @ e_acute @ ''fini''\<rparr>\<rparr>,
        adapter_calls = [],
        world_end = 0\<rparr>"
proof -
  have h: "as_client (Str ''An online shop'' :: nat js_arg) = None"
    by simp
  show ?thesis
    using h no_client_no_adapter_call [OF h, of "table_parse []" "''Shop''" "''openai''" 0]
    by simp
qed

text \<open>
  C8. The envelope \<^verbatim>\<open>generateBacklog\<close> resolves with is never partly filled: with
  \<^verbatim>\<open>success: true\<close> it has a result and no error, with \<^verbatim>\<open>success: false\<close> an
  error with a message and no result.
\<close>

theorem envelope_never_partly_filled:
  fixes cl :: "'w client option" and JSON_parse projectName projectDescription provider w
  defines "g \<equiv> generateBacklog JSON_parse projectName projectDescription cl provider w"
  shows "\<exists>env. settled g = Resolved env \<and>
           ((success env \<and> result env \<noteq> None \<and> error env = None) \<or>
            (\<not> success env \<and> result env = None \<and> error env \<noteq> None \<and>
               (\<exists>m. error env = Some \<lparr>instancePath = None, message = m\<rparr>)))"
proof (cases "processBacklogParams projectName projectDescription cl")
  case (ParamsInvalid e)
  then show ?thesis
    unfolding g_def by (simp add: generateBacklog_without_client failure_def)
next
  case (ParamsValid project c)
  let ?run = "attemptBacklogGeneration JSON_parse c (determineModel c) (createApiMessages project)
           createBacklogSchema backlog_validator w"
  have "generation_result.result x \<noteq> None"
    if "outcome ?run = Inr x" "generation_result.success x" for x
    by (rule attempt_loop_success_has_result
              [OF that(1) [unfolded attemptBacklogGeneration_def] that(2)])
  then have "(success (envelope_of (outcome ?run)) \<and> result (envelope_of (outcome ?run)) \<noteq> None
               \<and> error (envelope_of (outcome ?run)) = None)
   \<or> (\<not> success (envelope_of (outcome ?run)) \<and> result (envelope_of (outcome ?run)) = None
        \<and> error (envelope_of (outcome ?run)) \<noteq> None)"
    by (intro envelope_of_filled) auto
  moreover have "\<not> success (envelope_of (outcome ?run)) \<Longrightarrow>
      \<exists>m. error (envelope_of (outcome ?run)) = Some \<lparr>instancePath = None, message = m\<rparr>"
    by (auto simp: envelope_of_def failure_def split: sum.splits)
  ultimately show ?thesis
    unfolding g_def generateBacklog_with_client [OF ParamsValid refl]
    by auto
qed

section \<open>Claims about the schema\<close>

text \<open>
  C5, as the code has it. Validation knows the \<^verbatim>\<open>epic\<close> shape only: every backlog
  object without a field \<^verbatim>\<open>epic\<close> is rejected with the violation that the required
  property \<^verbatim>\<open>epic\<close> is missing, whatever else it carries, an \<^verbatim>\<open>epics\<close> sequence
  included.
\<close>

theorem backlog_without_epic_rejected:
  assumes "map_of fs ''epic'' = None"
  shows "missing_epic \<in> set (backlog_validator (JObj fs))"
  unfolding backlog_validator_def root_required
  using assms by (simp add: missing_epic_def)

text \<open>C5 at an object that carries \<^verbatim>\<open>epics\<close> only.\<close>

theorem backlog_without_epic_rejected_witness:
  "map_of [(''epics'', JArr [sample_epic])] ''epic'' = None
   \<and> missing_epic \<in> set (backlog_validator (JObj [(''epics'', JArr [sample_epic])]))"
proof -
  have h: "map_of [(''epics'', JArr [sample_epic])] ''epic'' = None"
    by simp
  show ?thesis
    using h backlog_without_epic_rejected [OF h] by simp
qed

text \<open>
  C5 as the specification states it fails: the sample backlog is accepted with
  \<^verbatim>\<open>epic\<close>, and rejected when the same epic is carried as an \<^verbatim>\<open>epics\<close> sequence.
\<close>

theorem both_epic_shapes_counterexample:
  "backlog_validator sample_backlog = []
   \<and> backlog_validator plural_backlog = [missing_epic]"
  by code_simp


text \<open>
  C10. No schema object of the backlog schema restricts additional properties: when a
  backlog is accepted, so is every extension of it with extra fields, at the root, in
  the epic, in any story or in any iteration.
\<close>

theorem extra_fields_are_accepted:
  assumes "backlog_validator B = []" and "extends B B'"
  shows "backlog_validator B' = []"
  using backlog_schema_open ref_validator_extension_blind [OF backlog_schema_open] assms
  unfolding backlog_validator_def
  by (rule schema_extension)

text \<open>C10 at the sample backlog and its extension with extra fields at all four levels.\<close>

theorem extra_fields_are_accepted_witness:
  "backlog_validator sample_backlog = []
   \<and> extends sample_backlog decorated_backlog
   \<and> backlog_validator decorated_backlog = []"
proof -
  have h: "extends sample_backlog decorated_backlog"
    by code_simp
  show ?thesis
    using sample_backlog_valid h extra_fields_are_accepted [OF sample_backlog_valid h]
    by simp
qed

end
